theory Spec2Isabelle
  imports Main "HOL-Library.Sublist" "HOL-Library.Word"
begin

section \<open>JavaScript values and string primitives\<close>

text \<open>
  A JavaScript string is a sequence of UTF-16 code units; \<open>js\<close> reads a literal
  of 8-bit characters as such a sequence, each character as the code unit of its code.
\<close>

type_synonym jsstring = "16 word list"

definition code_unit :: "char \<Rightarrow> 16 word" where
  "code_unit c = of_char c"

definition js :: "string \<Rightarrow> jsstring" where
  "js s = map code_unit s"

text \<open>
  The server receives JSON request bodies and hands JSON values to its responders.
  A value is one of the JSON shapes or \<open>undefined\<close> (a missing property).
  Numbers carry an integer payload: the program only ever tests a number for
  being zero (truthiness) and never computes with it.
\<close>

datatype jsval =
    JUndefined
  | JNull
  | JBool bool
  | JNum int
  | JStr jsstring
  | JArr "jsval list"
  | JObj "(jsstring \<times> jsval) list"

datatype error = TypeError | ReferenceError | SendError

text \<open>JavaScript truthiness, as used by \<^verbatim>\<open>!jobTitle\<close>.\<close>

fun truthy :: "jsval \<Rightarrow> bool" where
  "truthy JUndefined = False"
| "truthy JNull = False"
| "truthy (JBool b) = b"
| "truthy (JNum n) = (n \<noteq> 0)"
| "truthy (JStr s) = (s \<noteq> [])"
| "truthy (JArr xs) = True"
| "truthy (JObj kvs) = True"

text \<open>
  \<^verbatim>\<open>String.prototype.toLowerCase\<close> on the letters A to Z; every other code unit is
  left as it is. The program only searches the result for the keywords of
  \<^verbatim>\<open>getDefaultSkills\<close>, all in the letters a to z. Outside A to Z the characters
  whose lower case holds such a letter are U+0130, which becomes i followed by U+0307,
  and U+212A, which becomes k; neither can complete a keyword.
\<close>

definition lower_unit :: "16 word \<Rightarrow> 16 word" where
  "lower_unit n = (if 65 \<le> n \<and> n \<le> 90 then n + 32 else n)"

definition toLowerCase :: "jsstring \<Rightarrow> jsstring" where
  "toLowerCase s = map lower_unit s"

text \<open>\<^verbatim>\<open>String.prototype.includes\<close>: the needle occurs at some offset.\<close>

fun includes_str :: "jsstring \<Rightarrow> jsstring \<Rightarrow> bool" where
  "includes_str [] sub = (sub = [])"
| "includes_str (c # cs) sub = (prefix sub (c # cs) \<or> includes_str cs sub)"

text \<open>
  \<^verbatim>\<open>String.prototype.trim\<close> strips white space and line terminators at both ends:
  U+0009 to U+000D, U+0020, U+00A0, U+1680, U+2000 to U+200A, U+2028, U+2029, U+202F,
  U+205F, U+3000 and U+FEFF.
\<close>

definition is_space :: "16 word \<Rightarrow> bool" where
  "is_space n \<longleftrightarrow>
     (9 \<le> n \<and> n \<le> 13) \<or> n = 32 \<or> n = 0xA0 \<or> n = 0x1680
     \<or> (0x2000 \<le> n \<and> n \<le> 0x200A) \<or> n = 0x2028 \<or> n = 0x2029 \<or> n = 0x202F
     \<or> n = 0x205F \<or> n = 0x3000 \<or> n = 0xFEFF"

definition trim :: "jsstring \<Rightarrow> jsstring" where
  "trim s = rev (dropWhile is_space (rev (dropWhile is_space s)))"

text \<open>\<^verbatim>\<open>content.split(',')\<close>: always at least one piece, empty pieces are kept.\<close>

fun split_comma :: "jsstring \<Rightarrow> jsstring list" where
  "split_comma [] = [[]]"
| "split_comma (c # cs) =
     (if c = code_unit (CHR '','') then [] # split_comma cs
      else (case split_comma cs of [] \<Rightarrow> [[c]] | p # ps \<Rightarrow> (c # p) # ps))"

section \<open>The fallback skill resolver\<close>

definition commonSkills :: "jsstring list" where
  "commonSkills = [js ''Communication'', js ''Problem Solving'', js ''Teamwork'', js ''Time Management'']"

definition nurseSkills :: "jsstring list" where
  "nurseSkills =
     [js ''Patient Care'', js ''Medical Record Documentation'', js ''Vital Signs Monitoring'',
      js ''Medication Administration'', js ''Wound Care'', js ''Patient Advocacy'',
      js ''CPR/BLS Certified'', js ''Care Planning'', js ''Clinical Assessment'', js ''EMR/EHR Systems'']
     @ take 2 commonSkills"

definition developerSkills :: "jsstring list" where
  "developerSkills = commonSkills @ [js ''JavaScript'', js ''React'', js ''Git'', js ''CSS'', js ''HTML'']"

definition designerSkills :: "jsstring list" where
  "designerSkills = commonSkills @ [js ''UI/UX'', js ''Figma'', js ''Adobe Creative Suite'', js ''Prototyping'']"

definition managerSkills :: "jsstring list" where
  "managerSkills = commonSkills @ [js ''Leadership'', js ''Project Management'', js ''Agile'', js ''Budgeting'']"

definition genericSkills :: "jsstring list" where
  "genericSkills = commonSkills @ [js ''Research'', js ''Microsoft Office'', js ''Organization'', js ''Analysis'']"

text \<open>The body of \<^verbatim>\<open>getDefaultSkills\<close> once \<^verbatim>\<open>jobTitle\<close> is a string.\<close>

definition defaultSkillsFor :: "jsstring \<Rightarrow> jsstring list" where
  "defaultSkillsFor jobTitle =
     (let lowerTitle = toLowerCase jobTitle in
      if includes_str lowerTitle (js ''nurse'') \<or> includes_str lowerTitle (js ''nursing'') then nurseSkills
      else if includes_str lowerTitle (js ''developer'') \<or> includes_str lowerTitle (js ''engineer'') then developerSkills
      else if includes_str lowerTitle (js ''designer'') then designerSkills
      else if includes_str lowerTitle (js ''manager'') then managerSkills
      else genericSkills)"

text \<open>
  \<^verbatim>\<open>getDefaultSkills(jobTitle = "")\<close>: the default applies to \<open>undefined\<close> only;
  any other non-string has no \<^verbatim>\<open>toLowerCase\<close> method and the call throws.
\<close>

fun getDefaultSkills :: "jsval \<Rightarrow> error + jsstring list" where
  "getDefaultSkills JUndefined = Inr (defaultSkillsFor [])"
| "getDefaultSkills (JStr s) = Inr (defaultSkillsFor s)"
| "getDefaultSkills v = Inl TypeError"

text \<open>
  The resolver as the specification words it: an ordered table of categories, each a
  set of keywords with its list; the first category with a keyword occurring in the
  lower-cased title wins, otherwise the generic list.
\<close>

definition categories :: "(jsstring list \<times> jsstring list) list" where
  "categories =
     [([js ''nurse'', js ''nursing''], nurseSkills),
      ([js ''developer'', js ''engineer''], developerSkills),
      ([js ''designer''], designerSkills),
      ([js ''manager''], managerSkills)]"

fun firstMatch :: "jsstring \<Rightarrow> (jsstring list \<times> jsstring list) list \<Rightarrow> jsstring list" where
  "firstMatch t [] = genericSkills"
| "firstMatch t ((kws, skills) # rest) =
     (if list_ex (includes_str t) kws then skills else firstMatch t rest)"

definition fallbackSkills :: "jsstring \<Rightarrow> jsstring list" where
  "fallbackSkills title = firstMatch (toLowerCase title) categories"

section \<open>Reading the skill list out of a completion\<close>

text \<open>
  \<^verbatim>\<open>content.match(/\[.*\]/s)\<close>: the leftmost match starts at the first opening
  bracket, and the greedy dot-all body runs to the last closing bracket behind it.
\<close>

definition jsonMatch :: "jsstring \<Rightarrow> jsstring option" where
  "jsonMatch content =
     (let fromOpen = dropWhile (\<lambda>c. c \<noteq> code_unit (CHR ''['')) content in
      if fromOpen = [] then None
      else let toClose = rev (dropWhile (\<lambda>c. c \<noteq> code_unit (CHR '']'')) (rev (tl fromOpen))) in
           if toClose = [] then None else Some (code_unit (CHR ''['') # toClose))"

text \<open>\<^verbatim>\<open>content.split(',').map(skill => skill.trim()).filter(skill => skill.length > 0)\<close>\<close>

definition splitSkills :: "jsstring \<Rightarrow> jsstring list" where
  "splitSkills content = filter (\<lambda>skill. length skill > 0) (map trim (split_comma content))"

text \<open>
  Lines 83 to 110 of \<^verbatim>\<open>fetchSkillsFromMistral\<close>. \<open>JSON_parse\<close> is the built-in
  applied to the matched text: the text opens with a bracket, so the built-in yields an
  array (\<open>Some\<close>) or throws (\<open>None\<close>). The content is \<open>None\<close> when the response has
  no string at \<^verbatim>\<open>choices[0].message.content\<close>, which throws inside the inner \<^verbatim>\<open>try\<close>.
\<close>

definition extractSkills :: "(jsstring \<Rightarrow> jsval list option) \<Rightarrow> jsstring \<Rightarrow> jsstring option \<Rightarrow> jsval list" where
  "extractSkills JSON_parse jobTitle content =
     (let skills =
        (case content of
           None \<Rightarrow> map JStr (defaultSkillsFor jobTitle)
         | Some text \<Rightarrow>
             (case jsonMatch text of
                Some m \<Rightarrow>
                  (case JSON_parse m of
                     Some arr \<Rightarrow> arr
                   | None \<Rightarrow> map JStr (defaultSkillsFor jobTitle))
              | None \<Rightarrow> map JStr (splitSkills text)))
      in if skills = [] then map JStr (defaultSkillsFor jobTitle) else skills)"

text \<open>
  The same step as the specification words it: the first substring of the text that is
  a JSON array is parsed; when the text holds no JSON array it is split on commas; an
  empty list is replaced by the fallback list.
\<close>

definition arrayCandidates :: "jsstring \<Rightarrow> jsstring list" where
  "arrayCandidates text =
     concat (map (\<lambda>i. map (\<lambda>n. take n (drop i text)) [2..<Suc (length text - i)])
                 (filter (\<lambda>i. text ! i = code_unit (CHR ''['')) [0..<length text]))"

definition firstJsonArray :: "(jsstring \<Rightarrow> jsval list option) \<Rightarrow> jsstring \<Rightarrow> jsval list option" where
  "firstJsonArray JSON_parse text =
     (case List.map_filter JSON_parse (arrayCandidates text) of [] \<Rightarrow> None | arr # _ \<Rightarrow> Some arr)"

definition extractSkills_spec :: "(jsstring \<Rightarrow> jsval list option) \<Rightarrow> jsstring \<Rightarrow> jsstring \<Rightarrow> jsval list" where
  "extractSkills_spec JSON_parse jobTitle text =
     (let skills =
        (case firstJsonArray JSON_parse text of
           Some arr \<Rightarrow> arr
         | None \<Rightarrow> map JStr (splitSkills text))
      in if skills = [] then map JStr (defaultSkillsFor jobTitle) else skills)"

text \<open>
  \<^verbatim>\<open>JSON.parse\<close> on the texts that are a flat array of string literals without
  escapes, read by a scanner over the characters; every other text is taken as one
  the built-in rejects. It serves to evaluate the extraction on concrete completions.
\<close>

datatype scan = AtStart | AfterOpen | InString | AfterString | AfterComma | AtEnd

definition json_ws :: "16 word \<Rightarrow> bool" where
  "json_ws c = (c = 0x20 \<or> c = 0x09 \<or> c = 0x0A \<or> c = 0x0D)"

fun scanArray :: "scan \<Rightarrow> jsstring \<Rightarrow> jsstring list \<Rightarrow> jsstring \<Rightarrow> jsstring list option" where
  "scanArray st cur acc [] = (if st = AtEnd then Some (rev acc) else None)"
| "scanArray AtStart cur acc (c # cs) =
     (if c = code_unit (CHR ''['') then scanArray AfterOpen cur acc cs
      else if json_ws c then scanArray AtStart cur acc cs else None)"
| "scanArray AfterOpen cur acc (c # cs) =
     (if c = 0x22 then scanArray InString [] acc cs
      else if c = code_unit (CHR '']'') then scanArray AtEnd cur acc cs
      else if json_ws c then scanArray AfterOpen cur acc cs else None)"
| "scanArray InString cur acc (c # cs) =
     (if c = 0x22 then scanArray AfterString [] (rev cur # acc) cs
      else if c = 0x5C \<or> c < 32 then None
      else scanArray InString (c # cur) acc cs)"
| "scanArray AfterString cur acc (c # cs) =
     (if c = code_unit (CHR '','') then scanArray AfterComma cur acc cs
      else if c = code_unit (CHR '']'') then scanArray AtEnd cur acc cs
      else if json_ws c then scanArray AfterString cur acc cs else None)"
| "scanArray AfterComma cur acc (c # cs) =
     (if c = 0x22 then scanArray InString [] acc cs
      else if json_ws c then scanArray AfterComma cur acc cs else None)"
| "scanArray AtEnd cur acc (c # cs) =
     (if json_ws c then scanArray AtEnd cur acc cs else None)"

definition parseStringArray :: "jsstring \<Rightarrow> jsval list option" where
  "parseStringArray text = map_option (map JStr) (scanArray AtStart [] [] text)"

section \<open>The admission queue and its scheduler\<close>

text \<open>
  A queued job, as the object pushed on \<^verbatim>\<open>requestQueue\<close>. The responder \<^verbatim>\<open>res\<close>
  is the number of the request it belongs to. The handler pushes jobs without a
  \<^verbatim>\<open>retryCount\<close>; the destructuring default supplies 0 when the job is taken.
\<close>

record job =
  jobTitle :: jsstring
  res :: nat
  retryCount :: "nat option"

text \<open>
  What the remote call ends with: a response, with its content string if it has one,
  or a rejection, with an error object (and its message, if any) or with
  \<open>null\<close>/\<open>undefined\<close>.
\<close>

datatype rejection = ErrorObj "jsstring option" | Nullish

datatype outcome = Resolved "jsstring option" | Rejected rejection

text \<open>
  The observable actions, newest first in the trace, each with its time and its
  request: the remote call is issued (with title and \<^verbatim>\<open>retryCount\<close>); it ends;
  the retry timer is set, where the source logs the delay (with \<^verbatim>\<open>retryCount\<close> and
  delay); a responder is invoked (with status, optional error text, and skills).
\<close>

datatype event =
    Attempt int nat jsstring nat
  | Returned int nat outcome
  | Backoff int nat nat int
  | Respond int nat nat "string option" jsval

text \<open>
  A suspended run of \<^verbatim>\<open>processQueue\<close>: at the spacing timer (with its deadline), at
  the remote call, or at the retry timer inside \<^verbatim>\<open>fetchSkillsFromMistral\<close> (with
  its deadline); the latter two hold the job's \<^verbatim>\<open>jobTitle\<close>, \<^verbatim>\<open>res\<close> and
  \<^verbatim>\<open>retryCount\<close>.
\<close>

datatype activation =
    Spacing int
  | Calling jsstring nat nat
  | BackingOff int jsstring nat nat

text \<open>
  The module's variables, the clock read by \<^verbatim>\<open>Date.now()\<close>, the suspended runs,
  the number of the next request, and the trace.
\<close>

record state =
  requestQueue :: "job list"
  isProcessing :: bool
  lastRequestTime :: int
  now :: int
  pending :: "activation list"
  nextRes :: nat
  trace :: "event list"

definition MIN_REQUEST_INTERVAL :: int where
  "MIN_REQUEST_INTERVAL = 1000"

definition init :: "int \<Rightarrow> state" where
  "init t0 = \<lparr>requestQueue = [], isProcessing = False, lastRequestTime = 0, now = t0,
              pending = [], nextRes = 0, trace = []\<rparr>"

text \<open>
  What the program runs on: \<^verbatim>\<open>JSON.parse\<close> on a text that opens with a bracket
  (an array, or \<open>None\<close> when it throws), and whether \<^verbatim>\<open>res.status(code).json(body)\<close>
  throws, given the responder and the trace so far. The responder is an object of the
  web framework; when its invocation throws is left open here.
\<close>

record host =
  parseJSON :: "jsstring \<Rightarrow> jsval list option"
  sendThrows :: "event list \<Rightarrow> nat \<Rightarrow> bool"

text \<open>
  \<^verbatim>\<open>res.status(code).json(body)\<close>: an invocation that returns is recorded in the
  trace; one that throws leaves the state as it was.
\<close>

definition respond :: "host \<Rightarrow> nat \<Rightarrow> nat \<Rightarrow> string option \<Rightarrow> jsval \<Rightarrow> state \<Rightarrow> error + state" where
  "respond h r code err skills s =
     (if sendThrows h (trace s) r then Inl SendError
      else Inr (s\<lparr>trace := Respond (now s) r code err skills # trace s\<rparr>))"

text \<open>
  \<^verbatim>\<open>processQueue\<close> from the \<^verbatim>\<open>shift\<close> to the remote call. Taking from an empty
  queue throws outside any \<^verbatim>\<open>try\<close>, and the run ends there.
\<close>

definition startAttempt :: "state \<Rightarrow> state" where
  "startAttempt s =
     (case requestQueue s of
        [] \<Rightarrow> s
      | j # q \<Rightarrow>
          (let rc = (case retryCount j of None \<Rightarrow> 0 | Some n \<Rightarrow> n) in
           s\<lparr>requestQueue := q, lastRequestTime := now s,
             pending := pending s @ [Calling (jobTitle j) (res j) rc],
             trace := Attempt (now s) (res j) (jobTitle j) rc # trace s\<rparr>))"

text \<open>\<^verbatim>\<open>processQueue\<close> from its entry to its first suspension.\<close>

definition processQueue :: "state \<Rightarrow> state" where
  "processQueue s =
     (if isProcessing s \<or> requestQueue s = [] then s
      else
        (let s1 = s\<lparr>isProcessing := True\<rparr>;
             currentTime = now s1;
             timeToWait = max 0 (MIN_REQUEST_INTERVAL - (currentTime - lastRequestTime s1))
         in if timeToWait > 0 then s1\<lparr>pending := pending s1 @ [Spacing (currentTime + timeToWait)]\<rparr>
            else startAttempt s1))"

text \<open>
  \<^verbatim>\<open>processQueue\<close> once \<^verbatim>\<open>fetchSkillsFromMistral\<close> has returned the skills
  (\<open>Inr\<close>) or thrown (\<open>Inl\<close>). The \<^verbatim>\<open>try\<close> block invokes the responder with
  status 200; if \<^verbatim>\<open>fetchSkillsFromMistral\<close> or that invocation throws, the
  \<^verbatim>\<open>catch\<close> block invokes the responder with status 500 and the fallback list.
  Then the flag is cleared and the queue is processed again. If the \<^verbatim>\<open>catch\<close>
  block itself throws, the run ends there, with the flag still set.
\<close>

definition settle :: "host \<Rightarrow> jsstring \<Rightarrow> nat \<Rightarrow> error + jsval \<Rightarrow> state \<Rightarrow> state" where
  "settle h title r result s =
     (case (case result of Inr skills \<Rightarrow> respond h r 200 None skills s | Inl e \<Rightarrow> Inl e) of
        Inr s1 \<Rightarrow> processQueue (s1\<lparr>isProcessing := False\<rparr>)
      | Inl e \<Rightarrow>
          (case getDefaultSkills (JStr title) of
             Inl e' \<Rightarrow> s
           | Inr d \<Rightarrow>
               (case respond h r 500 (Some ''Failed to get suggestions'') (JArr (map JStr d)) s of
                  Inl e'' \<Rightarrow> s
                | Inr s2 \<Rightarrow> processQueue (s2\<lparr>isProcessing := False\<rparr>))))"

text \<open>\<^verbatim>\<open>error.message && error.message.includes("rate limit")\<close>\<close>

fun rateLimitMessage :: "jsstring option \<Rightarrow> bool" where
  "rateLimitMessage None = False"
| "rateLimitMessage (Some m) = (m \<noteq> [] \<and> includes_str m (js ''rate limit''))"

definition remove_nth :: "nat \<Rightarrow> 'a list \<Rightarrow> 'a list" where
  "remove_nth i xs = take i xs @ drop (Suc i) xs"

text \<open>
  The remote call of the \<open>i\<close>-th suspended run ends: the rest of
  \<^verbatim>\<open>fetchSkillsFromMistral\<close>, up to the retry timer or through the rest of
  \<^verbatim>\<open>processQueue\<close>. Reading the message of a \<open>null\<close> rejection throws inside the
  \<^verbatim>\<open>catch\<close> block, so that \<^verbatim>\<open>fetchSkillsFromMistral\<close> throws.
\<close>

definition onReply :: "host \<Rightarrow> nat \<Rightarrow> outcome \<Rightarrow> state \<Rightarrow> state" where
  "onReply h i out s =
     (if i < length (pending s) then
        (case pending s ! i of
           Calling title r rc \<Rightarrow>
             (let s1 = s\<lparr>pending := remove_nth i (pending s),
                         trace := Returned (now s) r out # trace s\<rparr>
              in case out of
                   Resolved content \<Rightarrow>
                     settle h title r (Inr (JArr (extractSkills (parseJSON h) title content))) s1
                 | Rejected Nullish \<Rightarrow> settle h title r (Inl TypeError) s1
                 | Rejected (ErrorObj m) \<Rightarrow>
                     if rateLimitMessage m \<and> rc < 3 then
                       (let retryDelay = 2 ^ rc * 1000 in
                        s1\<lparr>pending := pending s1 @ [BackingOff (now s1 + retryDelay) title r rc],
                           trace := Backoff (now s1) r rc retryDelay # trace s1\<rparr>)
                     else settle h title r (Inr (JArr (map JStr (defaultSkillsFor title)))) s1)
         | Spacing d \<Rightarrow> s
         | BackingOff d title r rc \<Rightarrow> s)
      else s)"

text \<open>
  The timer of the \<open>i\<close>-th suspended run fires, not before its deadline. After the
  spacing wait the job is taken and attempted. After the retry wait, line 121 builds
  the object to push from \<^verbatim>\<open>jobTitle\<close>, \<^verbatim>\<open>res\<close> and \<^verbatim>\<open>retryCount + 1\<close>. No
  \<^verbatim>\<open>res\<close> is in scope in \<^verbatim>\<open>fetchSkillsFromMistral\<close>: its parameters are
  \<^verbatim>\<open>jobTitle\<close> and \<^verbatim>\<open>retryCount\<close>, the module declares no such variable, and
  the \<^verbatim>\<open>res\<close> of \<^verbatim>\<open>processQueue\<close> and of the route handler are local to those.
  Reading it throws a \<open>ReferenceError\<close> before anything is pushed; the error leaves
  \<^verbatim>\<open>fetchSkillsFromMistral\<close> through its \<^verbatim>\<open>catch\<close> block and reaches the
  \<^verbatim>\<open>catch\<close> block of \<^verbatim>\<open>processQueue\<close>.
\<close>

definition onTimer :: "host \<Rightarrow> nat \<Rightarrow> state \<Rightarrow> state" where
  "onTimer h i s =
     (if i < length (pending s) then
        (case pending s ! i of
           Spacing d \<Rightarrow>
             if d \<le> now s then startAttempt (s\<lparr>pending := remove_nth i (pending s)\<rparr>) else s
         | Calling title r rc \<Rightarrow> s
         | BackingOff d title r rc \<Rightarrow>
             if d \<le> now s
             then settle h title r (Inl ReferenceError) (s\<lparr>pending := remove_nth i (pending s)\<rparr>)
             else s)
      else s)"

text \<open>
  The route handler on a request body whose \<^verbatim>\<open>jobTitle\<close> property is the given value.
  A truthy value that is not a string has no \<^verbatim>\<open>trim\<close>, so the call throws. Whatever
  the \<^verbatim>\<open>try\<close> block throws, the \<^verbatim>\<open>catch\<close> block evaluates
  \<^verbatim>\<open>getDefaultSkills\<close> on that same value and then invokes the responder with
  status 500; if the \<^verbatim>\<open>catch\<close> block throws, nothing more happens.
\<close>

definition handler :: "host \<Rightarrow> jsval \<Rightarrow> state \<Rightarrow> state" where
  "handler h title s =
     (let r = nextRes s; s0 = s\<lparr>nextRes := Suc r\<rparr>;
          invalid = respond h r 400 (Some ''Job title is required'')
                      (JArr [JStr (js ''Communication''), JStr (js ''Problem Solving''),
                             JStr (js ''Teamwork''), JStr (js ''Time Management'')]) s0;
          tried =
            (if \<not> truthy title then invalid
             else (case title of
                     JStr t \<Rightarrow>
                       if trim t = [] then invalid
                       else Inr (processQueue
                                   (s0\<lparr>requestQueue :=
                                         requestQueue s0 @ [\<lparr>jobTitle = t, res = r, retryCount = None\<rparr>]\<rparr>))
                   | _ \<Rightarrow> Inl TypeError))
      in case tried of
           Inr s1 \<Rightarrow> s1
         | Inl e \<Rightarrow>
             (case getDefaultSkills title of
                Inl e' \<Rightarrow> s0
              | Inr d \<Rightarrow>
                  (case respond h r 500 (Some ''Failed to process request'') (JArr (map JStr d)) s0 of
                     Inl e'' \<Rightarrow> s0
                   | Inr s2 \<Rightarrow> s2)))"

text \<open>
  What happens between two states: a request arrives, time passes, a timer fires, or a
  remote call ends. A run starts from the initial state at some clock value.
\<close>

datatype input = Request jsval | Tick nat | Timer nat | Reply nat outcome

fun step :: "host \<Rightarrow> state \<Rightarrow> input \<Rightarrow> state" where
  "step h s (Request title) = handler h title s"
| "step h s (Tick d) = s\<lparr>now := now s + int d\<rparr>"
| "step h s (Timer i) = onTimer h i s"
| "step h s (Reply i out) = onReply h i out s"

definition run :: "host \<Rightarrow> int \<Rightarrow> input list \<Rightarrow> state" where
  "run h t0 ins = foldl (step h) (init t0) ins"

section \<open>Reading the trace\<close>

text \<open>The responder invocations of request \<open>r\<close>, newest first.\<close>

fun responsesTo :: "nat \<Rightarrow> event list \<Rightarrow> event list" where
  "responsesTo r [] = []"
| "responsesTo r (Respond t r' code err sk # tr) =
     (if r' = r then Respond t r' code err sk # responsesTo r tr else responsesTo r tr)"
| "responsesTo r (e # tr) = responsesTo r tr"

text \<open>The start times of the remote calls, newest first.\<close>

fun attemptTimes :: "event list \<Rightarrow> int list" where
  "attemptTimes [] = []"
| "attemptTimes (Attempt t r title rc # tr) = t # attemptTimes tr"
| "attemptTimes (e # tr) = attemptTimes tr"

text \<open>How many remote calls were made for request \<open>r\<close>.\<close>

fun attempts :: "nat \<Rightarrow> event list \<Rightarrow> nat" where
  "attempts r [] = 0"
| "attempts r (Attempt t r' title rc # tr) = (if r' = r then Suc (attempts r tr) else attempts r tr)"
| "attempts r (e # tr) = attempts r tr"


text \<open>The request an event belongs to.\<close>

fun eventRes :: "event \<Rightarrow> nat" where
  "eventRes (Attempt t r title rc) = r"
| "eventRes (Returned t r out) = r"
| "eventRes (Backoff t r rc delay) = r"
| "eventRes (Respond t r code err sk) = r"

text \<open>The requests that are in the queue or held by a suspended run.\<close>

fun activationRes :: "activation \<Rightarrow> nat list" where
  "activationRes (Spacing d) = []"
| "activationRes (Calling title r rc) = [r]"
| "activationRes (BackingOff d title r rc) = [r]"

definition inProgress :: "state \<Rightarrow> nat list" where
  "inProgress s = map res (requestQueue s) @ concat (map activationRes (pending s))"

fun isCalling :: "activation \<Rightarrow> bool" where
  "isCalling (Calling title r rc) = True"
| "isCalling a = False"

text \<open>
  A host for evaluating runs: the scanner for flat string arrays as parser, and
  responders that take every invocation.
\<close>

definition acceptingHost :: host where
  "acceptingHost = \<lparr>parseJSON = parseStringArray, sendThrows = (\<lambda>tr r. False)\<rparr>"

section \<open>Invariants of the scheduler\<close>

text \<open>
  Shape: there is at most one suspended run, and only while the flag is set; the queue
  is empty while the flag is clear; a run at its spacing timer still has its job in
  the queue.
\<close>

definition invShape :: "state \<Rightarrow> bool" where
  "invShape s \<longleftrightarrow>
     length (pending s) \<le> 1
     \<and> (pending s \<noteq> [] \<longrightarrow> isProcessing s)
     \<and> (\<not> isProcessing s \<longrightarrow> requestQueue s = [])
     \<and> (\<forall>d. pending s = [Spacing d] \<longrightarrow> requestQueue s \<noteq> [])"

text \<open>Consecutive start times, newest first, are at least the interval apart.\<close>

fun spaced :: "int list \<Rightarrow> bool" where
  "spaced (t # t' # ts) = (t' + MIN_REQUEST_INTERVAL \<le> t \<and> spaced (t' # ts))"
| "spaced ts = True"

text \<open>
  Timing: the attempts so far are spaced, the newest of them started at
  \<^verbatim>\<open>lastRequestTime\<close>, and a spacing timer is due no earlier than one interval
  after it.
\<close>

definition invTiming :: "state \<Rightarrow> bool" where
  "invTiming s \<longleftrightarrow>
     spaced (attemptTimes (trace s))
     \<and> (\<forall>t ts. attemptTimes (trace s) = t # ts \<longrightarrow> lastRequestTime s = t)
     \<and> (\<forall>d. Spacing d \<in> set (pending s) \<longrightarrow> lastRequestTime s + MIN_REQUEST_INTERVAL \<le> d)"

text \<open>
  Accounting, per request: no request is held twice; a queued job was pushed by the
  handler (it has no \<^verbatim>\<open>retryCount\<close>) and has not been attempted; a job at its
  remote call or at its retry timer has \<^verbatim>\<open>retryCount\<close> 0 and has been attempted
  once; no request has been attempted more than once, and a request still to come has
  no event.
\<close>

definition queuedOk :: "event list \<Rightarrow> job \<Rightarrow> bool" where
  "queuedOk tr j \<longleftrightarrow> retryCount j = None \<and> attempts (res j) tr = 0"

fun activeOk :: "event list \<Rightarrow> activation \<Rightarrow> bool" where
  "activeOk tr (Spacing d) = True"
| "activeOk tr (Calling title r c) = (c = 0 \<and> attempts r tr = 1)"
| "activeOk tr (BackingOff d title r c) = (c = 0 \<and> attempts r tr = 1)"

definition invJobs :: "state \<Rightarrow> bool" where
  "invJobs s \<longleftrightarrow>
     distinct (inProgress s)
     \<and> (\<forall>j \<in> set (requestQueue s). queuedOk (trace s) j)
     \<and> (\<forall>a \<in> set (pending s). activeOk (trace s) a)
     \<and> (\<forall>r. attempts r (trace s) \<le> 1)
     \<and> (\<forall>r. nextRes s \<le> r \<longrightarrow> r \<notin> set (inProgress s) \<and> r \<notin> eventRes ` set (trace s))"

section \<open>Properties of the fallback skill resolver\<close>

lemma defaultSkillsFor_cases:
  "defaultSkillsFor t \<in> {nurseSkills, developerSkills, designerSkills, managerSkills, genericSkills}"
  by (simp add: defaultSkillsFor_def Let_def)

lemma skill_lists_length:
  "length nurseSkills = 12" "length developerSkills = 9" "length designerSkills = 8"
  "length managerSkills = 8" "length genericSkills = 8"
  by (simp_all add: nurseSkills_def developerSkills_def designerSkills_def managerSkills_def
      genericSkills_def commonSkills_def)

lemma skill_lists_common:
  "js ''Communication'' \<in> set nurseSkills" "js ''Problem Solving'' \<in> set nurseSkills"
  "js ''Communication'' \<in> set developerSkills" "js ''Problem Solving'' \<in> set developerSkills"
  "js ''Communication'' \<in> set designerSkills" "js ''Problem Solving'' \<in> set designerSkills"
  "js ''Communication'' \<in> set managerSkills" "js ''Problem Solving'' \<in> set managerSkills"
  "js ''Communication'' \<in> set genericSkills" "js ''Problem Solving'' \<in> set genericSkills"
  by (simp_all add: nurseSkills_def developerSkills_def designerSkills_def managerSkills_def
      genericSkills_def commonSkills_def)

lemma defaultSkillsFor_length: "8 \<le> length (defaultSkillsFor t)"
  using defaultSkillsFor_cases [of t] by (auto simp: skill_lists_length)

lemma defaultSkillsFor_common:
  "js ''Communication'' \<in> set (defaultSkillsFor t)" "js ''Problem Solving'' \<in> set (defaultSkillsFor t)"
  using defaultSkillsFor_cases [of t] by (auto simp: skill_lists_common)

lemma defaultSkillsFor_nonempty: "defaultSkillsFor t \<noteq> []"
  using defaultSkillsFor_length [of t] by auto

lemma toLowerCase_registered_nurse: "toLowerCase (js ''Registered Nurse'') = js ''registered nurse''"
  by code_simp

lemma includes_registered_nurse: "includes_str (js ''registered nurse'') (js ''nurse'')"
  by code_simp

text \<open>
  C8. The fallback resolver is a function of the title alone: on every string title it
  returns what first-match-wins over the ordered categories nurse/nursing,
  developer/engineer, designer, manager returns on the lower-cased title, else the
  generic list. \<open>Registered Nurse\<close> gives the nurse list and the empty title the generic list.
\<close>

theorem getDefaultSkills_first_match:
  "getDefaultSkills (JStr title) = Inr (fallbackSkills title)
   \<and> getDefaultSkills (JStr (js ''Registered Nurse'')) = Inr nurseSkills
   \<and> getDefaultSkills (JStr []) = Inr genericSkills"
proof -
  have "defaultSkillsFor title = fallbackSkills title"
    by (simp add: defaultSkillsFor_def fallbackSkills_def categories_def Let_def)
  moreover have "defaultSkillsFor (js ''Registered Nurse'') = nurseSkills"
    unfolding defaultSkillsFor_def Let_def toLowerCase_registered_nurse
    using includes_registered_nurse by simp
  moreover have "defaultSkillsFor [] = genericSkills"
    by code_simp
  ultimately show ?thesis by simp
qed

theorem getDefaultSkills_first_match_witness:
  "getDefaultSkills (JStr (js ''Senior Design Engineer'')) = Inr developerSkills"
proof -
  have "fallbackSkills (js ''Senior Design Engineer'') = developerSkills"
    by code_simp
  with getDefaultSkills_first_match [of "js ''Senior Design Engineer''"] show ?thesis
    by simp
qed

section \<open>Properties of reading a completion\<close>

lemma jsonMatch_span:
  assumes "code_unit (CHR ''['') \<notin> set pre" and "code_unit (CHR '']'') \<notin> set post"
  shows "jsonMatch (pre @ code_unit (CHR ''['') # body @ code_unit (CHR '']'') # post) = Some (code_unit (CHR ''['') # body @ [code_unit (CHR '']'')])"
proof -
  have a: "dropWhile (\<lambda>c. c \<noteq> code_unit (CHR ''['')) (pre @ code_unit (CHR ''['') # body @ code_unit (CHR '']'') # post)
           = code_unit (CHR ''['') # body @ code_unit (CHR '']'') # post"
    using assms(1) by (auto simp: dropWhile_append)
  have b: "dropWhile (\<lambda>c. c \<noteq> code_unit (CHR '']'')) (rev post @ code_unit (CHR '']'') # rev body) = code_unit (CHR '']'') # rev body"
    using assms(2) by (auto simp: dropWhile_append)
  show ?thesis
    unfolding jsonMatch_def Let_def a by (simp add: b)
qed

lemma jsonMatch_Some_ex:
  assumes "jsonMatch text = Some m"
  shows "\<exists>pre body post. text = pre @ code_unit (CHR ''['') # body @ code_unit (CHR '']'') # post"
proof -
  define fromOpen where "fromOpen = dropWhile (\<lambda>c. c \<noteq> code_unit (CHR ''['')) text"
  define D where "D = dropWhile (\<lambda>c. c \<noteq> code_unit (CHR '']'')) (rev (tl fromOpen))"
  define T where "T = takeWhile (\<lambda>c. c \<noteq> code_unit (CHR '']'')) (rev (tl fromOpen))"
  from assms have ne: "fromOpen \<noteq> []" "D \<noteq> []"
    by (auto simp: jsonMatch_def Let_def fromOpen_def D_def split: if_splits)
  have "hd fromOpen = code_unit (CHR ''['')"
    using ne(1) hd_dropWhile [of "\<lambda>c. c \<noteq> code_unit (CHR ''['')" "text"] by (simp add: fromOpen_def)
  with ne(1) have fo: "fromOpen = code_unit (CHR ''['') # tl fromOpen"
    by (cases fromOpen) auto
  have "takeWhile (\<lambda>c. c \<noteq> code_unit (CHR ''['')) text @ fromOpen = text"
    by (simp add: fromOpen_def)
  with fo have t1: "text = takeWhile (\<lambda>c. c \<noteq> code_unit (CHR ''['')) text @ code_unit (CHR ''['') # tl fromOpen"
    by metis
  have "hd D = code_unit (CHR '']'')"
    using ne(2) hd_dropWhile [of "\<lambda>c. c \<noteq> code_unit (CHR '']'')" "rev (tl fromOpen)"] by (simp add: D_def)
  with ne(2) have d: "D = code_unit (CHR '']'') # tl D"
    by (cases D) auto
  have "T @ D = rev (tl fromOpen)"
    by (simp add: T_def D_def)
  with d have "rev (tl fromOpen) = T @ code_unit (CHR '']'') # tl D"
    by metis
  then have "rev (rev (tl fromOpen)) = rev (T @ code_unit (CHR '']'') # tl D)"
    by simp
  then have t2: "tl fromOpen = rev (tl D) @ code_unit (CHR '']'') # rev T"
    by simp
  have "text = takeWhile (\<lambda>c. c \<noteq> code_unit (CHR ''['')) text @ code_unit (CHR ''['') # rev (tl D) @ code_unit (CHR '']'') # rev T"
    using t1 unfolding t2 .
  then show ?thesis by blast
qed

lemma extractSkills_nonempty: "extractSkills JSON_parse title content \<noteq> []"
  by (simp add: extractSkills_def Let_def defaultSkillsFor_nonempty)

section \<open>Properties of single scheduler steps\<close>

lemma processQueue_busy: "isProcessing s \<Longrightarrow> processQueue s = s"
  by (simp add: processQueue_def)

lemma processQueue_empty: "requestQueue s = [] \<Longrightarrow> processQueue s = s"
  by (simp add: processQueue_def)

lemma responsesTo_processQueue: "responsesTo r (trace (processQueue s)) = responsesTo r (trace s)"
  by (cases "requestQueue s") (simp_all add: processQueue_def startAttempt_def Let_def)

lemma settle_Inr:
  "settle h title r (Inr sk) s =
     (if sendThrows h (trace s) r then s
      else processQueue (s\<lparr>trace := Respond (now s) r 200 None sk # trace s, isProcessing := False\<rparr>))"
  by (simp add: settle_def respond_def)

lemma settle_Inl:
  "settle h title r (Inl e) s =
     (if sendThrows h (trace s) r then s
      else processQueue
             (s\<lparr>trace := Respond (now s) r 500 (Some ''Failed to get suggestions'')
                              (JArr (map JStr (defaultSkillsFor title))) # trace s,
                isProcessing := False\<rparr>))"
  by (simp add: settle_def respond_def)

lemma settle_preserves:
  assumes "P s"
    and "\<And>code err sk.
           P (processQueue (s\<lparr>trace := Respond (now s) r code err sk # trace s, isProcessing := False\<rparr>))"
  shows "P (settle h title r result s)"
proof (cases result)
  case (Inl e)
  show ?thesis unfolding Inl settle_Inl using assms by simp
next
  case (Inr sk)
  show ?thesis unfolding Inr settle_Inr using assms by simp
qed

lemma settle_responses:
  assumes "\<not> sendThrows h (trace s) r"
  shows "responsesTo r (trace (settle h title r (Inr skills) s)) =
           Respond (now s) r 200 None skills # responsesTo r (trace s)"
  using assms by (simp add: settle_Inr responsesTo_processQueue)

lemma handler_invalid:
  assumes "\<not> truthy v \<or> (\<exists>t. v = JStr t \<and> trim t = [])"
  shows "handler h v s =
     (if sendThrows h (trace s) (nextRes s)
      then s\<lparr>nextRes := Suc (nextRes s)\<rparr>
      else s\<lparr>nextRes := Suc (nextRes s),
             trace := Respond (now s) (nextRes s) 400 (Some ''Job title is required'')
                        (JArr [JStr (js ''Communication''), JStr (js ''Problem Solving''),
                               JStr (js ''Teamwork''), JStr (js ''Time Management'')]) # trace s\<rparr>)"
  using assms by (cases v) (auto simp: handler_def Let_def respond_def split: sum.splits)

lemma handler_valid:
  assumes "v = JStr t" and "trim t \<noteq> []"
  shows "handler h v s =
           processQueue (s\<lparr>nextRes := Suc (nextRes s),
             requestQueue := requestQueue s @ [\<lparr>jobTitle = t, res = nextRes s, retryCount = None\<rparr>]\<rparr>)"
proof -
  from assms(2) have "t \<noteq> []" by (auto simp: trim_def)
  with assms show ?thesis by (simp add: handler_def Let_def)
qed

lemma handler_other:
  assumes "truthy v" and "\<forall>t. v \<noteq> JStr t"
  shows "handler h v s = s\<lparr>nextRes := Suc (nextRes s)\<rparr>"
  using assms by (cases v) (simp_all add: handler_def Let_def)

lemma handler_preserves:
  assumes "P (s\<lparr>nextRes := Suc (nextRes s)\<rparr>)"
    and "\<And>code err sk.
           P (s\<lparr>nextRes := Suc (nextRes s), trace := Respond (now s) (nextRes s) code err sk # trace s\<rparr>)"
    and "\<And>t. P (processQueue (s\<lparr>nextRes := Suc (nextRes s),
             requestQueue := requestQueue s @ [\<lparr>jobTitle = t, res = nextRes s, retryCount = None\<rparr>]\<rparr>))"
  shows "P (handler h v s)"
proof (cases "\<not> truthy v \<or> (\<exists>t. v = JStr t \<and> trim t = [])")
  case True
  show ?thesis
    unfolding handler_invalid [OF True] using assms(1,2) by simp
next
  case False
  show ?thesis
  proof (cases "\<exists>t. v = JStr t")
    case True
    then obtain t where "v = JStr t" by blast
    moreover with False have "trim t \<noteq> []" by simp
    ultimately show ?thesis using assms(3) by (simp add: handler_valid)
  next
    case False
    with \<open>\<not> (\<not> truthy v \<or> (\<exists>t. v = JStr t \<and> trim t = []))\<close> show ?thesis
      using assms(1) by (simp add: handler_other)
  qed
qed

text \<open>
  C10 does not hold of the code. On a title that is a string, and on a missing
  argument, \<^verbatim>\<open>getDefaultSkills\<close> returns a list of at least eight skills that holds
  \<open>Communication\<close> and \<open>Problem Solving\<close>. On the number 123 it throws: a number has
  no \<^verbatim>\<open>toLowerCase\<close>. The route handler makes that call. With \<open>jobTitle\<close> 123 its
  \<^verbatim>\<open>try\<close> block throws at \<^verbatim>\<open>trim\<close>, its \<^verbatim>\<open>catch\<close> block calls
  \<^verbatim>\<open>getDefaultSkills\<close> on 123, and the request is left without any response.
\<close>

theorem getDefaultSkills_throws_on_number:
  "(\<exists>xs. getDefaultSkills (JStr t) = Inr xs \<and> 8 \<le> length xs
         \<and> js ''Communication'' \<in> set xs \<and> js ''Problem Solving'' \<in> set xs)
   \<and> (\<exists>xs. getDefaultSkills JUndefined = Inr xs \<and> 8 \<le> length xs
         \<and> js ''Communication'' \<in> set xs \<and> js ''Problem Solving'' \<in> set xs)
   \<and> getDefaultSkills (JNum 123) = Inl TypeError
   \<and> handler h (JNum 123) s = s\<lparr>nextRes := Suc (nextRes s)\<rparr>
   \<and> trace (run acceptingHost 5000 [Request (JNum 123)]) = []"
proof -
  have "handler h (JNum 123) s = s\<lparr>nextRes := Suc (nextRes s)\<rparr>"
    by (rule handler_other) simp_all
  moreover have "trace (run acceptingHost 5000 [Request (JNum 123)]) = []"
    by code_simp
  ultimately show ?thesis
    by (simp add: defaultSkillsFor_length defaultSkillsFor_common)
qed

text \<open>
  C7, as the code has it. When the text holds an opening bracket with a closing bracket
  somewhere behind it, the span from the first opening bracket to the last closing
  bracket, and nothing else, is given to \<open>JSON.parse\<close>; its array is the skill list.
  When the text holds no such span it is split on commas, the pieces are trimmed and
  the empty ones dropped. When the parse throws or the list is empty the fallback list
  of the title is returned. The result is never empty, and the scheduler hands it to
  the responder with status 200 and no error text; it is delivered when that
  invocation returns.
\<close>

theorem extractSkills_span:
  "(str = pre @ code_unit (CHR ''['') # body @ code_unit (CHR '']'') # post
      \<and> code_unit (CHR ''['') \<notin> set pre \<and> code_unit (CHR '']'') \<notin> set post \<longrightarrow>
      extractSkills JSON_parse title (Some str) =
        (case JSON_parse (code_unit (CHR ''['') # body @ [code_unit (CHR '']'')]) of
           Some arr \<Rightarrow> if arr = [] then map JStr (defaultSkillsFor title) else arr
         | None \<Rightarrow> map JStr (defaultSkillsFor title)))
   \<and> ((\<nexists>pre body post. str = pre @ code_unit (CHR ''['') # body @ code_unit (CHR '']'') # post) \<longrightarrow>
      extractSkills JSON_parse title (Some str) =
        (if splitSkills str = [] then map JStr (defaultSkillsFor title)
         else map JStr (splitSkills str)))
   \<and> extractSkills JSON_parse title content \<noteq> []
   \<and> (i < length (pending s) \<and> pending s ! i = Calling title r rc
        \<and> \<not> sendThrows h (Returned (now s) r (Resolved content) # trace s) r \<longrightarrow>
      responsesTo r (trace (onReply h i (Resolved content) s)) =
        Respond (now s) r 200 None (JArr (extractSkills (parseJSON h) title content))
          # responsesTo r (trace s))"
proof (intro conjI impI)
  assume a: "str = pre @ code_unit (CHR ''['') # body @ code_unit (CHR '']'') # post
      \<and> code_unit (CHR ''['') \<notin> set pre \<and> code_unit (CHR '']'') \<notin> set post"
  then have "jsonMatch str = Some (code_unit (CHR ''['') # body @ [code_unit (CHR '']'')])"
    by (simp add: jsonMatch_span)
  then show "extractSkills JSON_parse title (Some str) =
        (case JSON_parse (code_unit (CHR ''['') # body @ [code_unit (CHR '']'')]) of
           Some arr \<Rightarrow> if arr = [] then map JStr (defaultSkillsFor title) else arr
         | None \<Rightarrow> map JStr (defaultSkillsFor title))"
    by (simp add: extractSkills_def Let_def defaultSkillsFor_nonempty split: option.splits)
next
  assume "\<nexists>pre body post. str = pre @ code_unit (CHR ''['') # body @ code_unit (CHR '']'') # post"
  then have "jsonMatch str = None"
    using jsonMatch_Some_ex [of "str"] by (cases "jsonMatch str") blast+
  then show "extractSkills JSON_parse title (Some str) =
        (if splitSkills str = [] then map JStr (defaultSkillsFor title)
         else map JStr (splitSkills str))"
    by (simp add: extractSkills_def Let_def)
next
  show "extractSkills JSON_parse title content \<noteq> []"
    by (rule extractSkills_nonempty)
next
  assume "i < length (pending s) \<and> pending s ! i = Calling title r rc
    \<and> \<not> sendThrows h (Returned (now s) r (Resolved content) # trace s) r"
  then show "responsesTo r (trace (onReply h i (Resolved content) s)) =
        Respond (now s) r 200 None (JArr (extractSkills (parseJSON h) title content))
          # responsesTo r (trace s)"
    by (auto simp: onReply_def Let_def settle_responses)
qed

theorem extractSkills_span_witness:
  \<open>extractSkills parseStringArray (js ''Nurse'') (Some (js ''Skills: ["Triage", "IV Therapy"] (draft)''))
     = [JStr (js ''Triage''), JStr (js ''IV Therapy'')]
   \<and> extractSkills parseStringArray (js ''Nurse'') (Some (js '' Triage, , IV Therapy ,''))
     = [JStr (js ''Triage''), JStr (js ''IV Therapy'')]
   \<and> extractSkills parseStringArray (js ''Nurse'') (Some (js ''A,'' @ [0xA0] @ js '',B''))
     = [JStr (js ''A''), JStr (js ''B'')]
   \<and> responsesTo 0 (trace (onReply acceptingHost 0 (Resolved (Some (js ''["Triage"]'')))
        ((init 5000)\<lparr>isProcessing := True, pending := [Calling (js ''Nurse'') 0 0]\<rparr>)))
     = [Respond 5000 0 200 None
          (JArr (extractSkills (parseJSON acceptingHost) (js ''Nurse'') (Some (js ''["Triage"]''))))]\<close>
proof -
  have p: \<open>parseStringArray (code_unit (CHR ''['') # js ''"Triage", "IV Therapy"'' @ [code_unit (CHR '']'')])
           = Some [JStr (js ''Triage''), JStr (js ''IV Therapy'')]\<close>
    by code_simp
  have a: \<open>js ''Skills: ["Triage", "IV Therapy"] (draft)''
             = js ''Skills: '' @ code_unit (CHR ''['') # js ''"Triage", "IV Therapy"''
                 @ code_unit (CHR '']'') # js '' (draft)''
           \<and> code_unit (CHR ''['') \<notin> set (js ''Skills: '')
           \<and> code_unit (CHR '']'') \<notin> set (js '' (draft)'')\<close>
    by code_simp
  have no_bracket: \<open>\<nexists>pre body post. str = pre @ code_unit (CHR ''['') # body @ code_unit (CHR '']'') # post\<close>
    if \<open>code_unit (CHR ''['') \<notin> set str\<close> for str
  proof
    assume \<open>\<exists>pre body post. str = pre @ code_unit (CHR ''['') # body @ code_unit (CHR '']'') # post\<close>
    then obtain pre body post
      where \<open>str = pre @ code_unit (CHR ''['') # body @ code_unit (CHR '']'') # post\<close> by blast
    then have \<open>code_unit (CHR ''['') \<in> set str\<close>
      by (metis in_set_conv_decomp)
    with that show False by simp
  qed
  have \<open>code_unit (CHR ''['') \<notin> set (js '' Triage, , IV Therapy ,'')\<close>
    by code_simp
  then have b: \<open>\<nexists>pre body post.
      js '' Triage, , IV Therapy ,'' = pre @ code_unit (CHR ''['') # body @ code_unit (CHR '']'') # post\<close>
    by (rule no_bracket)
  have \<open>code_unit (CHR ''['') \<notin> set (js ''A,'' @ [0xA0] @ js '',B'')\<close>
    by code_simp
  then have b': \<open>\<nexists>pre body post.
      js ''A,'' @ [0xA0] @ js '',B'' = pre @ code_unit (CHR ''['') # body @ code_unit (CHR '']'') # post\<close>
    by (rule no_bracket)
  have c: \<open>splitSkills (js '' Triage, , IV Therapy ,'') = [js ''Triage'', js ''IV Therapy'']\<close>
    by code_simp
  have c': \<open>splitSkills (js ''A,'' @ [0xA0] @ js '',B'') = [js ''A'', js ''B'']\<close>
    by code_simp
  note first = extractSkills_span [where str = \<open>js ''Skills: ["Triage", "IV Therapy"] (draft)''\<close>
      and pre = \<open>js ''Skills: ''\<close> and body = \<open>js ''"Triage", "IV Therapy"''\<close> and post = \<open>js '' (draft)''\<close>
      and JSON_parse = parseStringArray and title = \<open>js ''Nurse''\<close>, THEN conjunct1, THEN mp, OF a]
  note second = extractSkills_span [where str = \<open>js '' Triage, , IV Therapy ,''\<close>
      and JSON_parse = parseStringArray and title = \<open>js ''Nurse''\<close>,
      THEN conjunct2, THEN conjunct1, THEN mp, OF b]
  note third = extractSkills_span [where str = \<open>js ''A,'' @ [0xA0] @ js '',B''\<close>
      and JSON_parse = parseStringArray and title = \<open>js ''Nurse''\<close>,
      THEN conjunct2, THEN conjunct1, THEN mp, OF b']
  have 1: \<open>extractSkills parseStringArray (js ''Nurse'') (Some (js ''Skills: ["Triage", "IV Therapy"] (draft)''))
     = [JStr (js ''Triage''), JStr (js ''IV Therapy'')]\<close>
    unfolding first p by simp
  have 2: \<open>extractSkills parseStringArray (js ''Nurse'') (Some (js '' Triage, , IV Therapy ,''))
     = [JStr (js ''Triage''), JStr (js ''IV Therapy'')]\<close>
    unfolding second c by simp
  have 3: \<open>extractSkills parseStringArray (js ''Nurse'') (Some (js ''A,'' @ [0xA0] @ js '',B''))
     = [JStr (js ''A''), JStr (js ''B'')]\<close>
    unfolding third c' by simp
  have 4: \<open>responsesTo 0 (trace (onReply acceptingHost 0 (Resolved (Some (js ''["Triage"]'')))
        ((init 5000)\<lparr>isProcessing := True, pending := [Calling (js ''Nurse'') 0 0]\<rparr>)))
     = [Respond 5000 0 200 None
          (JArr (extractSkills (parseJSON acceptingHost) (js ''Nurse'') (Some (js ''["Triage"]''))))]\<close>
    using extractSkills_span [where h = acceptingHost and i = 0 and title = \<open>js ''Nurse''\<close>
        and r = 0 and rc = 0 and content = \<open>Some (js ''["Triage"]'')\<close>
        and s = \<open>(init 5000)\<lparr>isProcessing := True, pending := [Calling (js ''Nurse'') 0 0]\<rparr>\<close>,
        THEN conjunct2, THEN conjunct2, THEN conjunct2]
    by (simp add: init_def acceptingHost_def)
  from 1 2 3 4 show ?thesis by simp
qed

text \<open>
  C7 as stated fails on a completion with two arrays: the first JSON array of
  \<open>["Triage"] and ["Wound Care"]\<close> is \<open>["Triage"]\<close>, but the code parses the span up
  to the last closing bracket, which is not JSON, and returns the fallback list.
\<close>

theorem first_array_counterexample:
  \<open>extractSkills parseStringArray (js ''Nurse'') (Some (js ''["Triage"] and ["Wound Care"]''))
     = map JStr nurseSkills
   \<and> extractSkills_spec parseStringArray (js ''Nurse'') (js ''["Triage"] and ["Wound Care"]'')
     = [JStr (js ''Triage'')]\<close>
  by code_simp

text \<open>
  C9. A request whose \<open>jobTitle\<close> is missing or otherwise falsy, or is a string that
  is blank after trimming, is answered with status 400, the error text
  \<open>Job title is required\<close> and the four generic skills, when the invocation of its
  responder returns; the queue, the flag, the suspended runs and the time of the last
  attempt stay as they were, and no remote call is made.
\<close>

theorem handler_rejects_blank:
  assumes "\<not> truthy title \<or> (title = JStr t \<and> trim t = [])"
  shows "(\<not> sendThrows h (trace s) (nextRes s) \<longrightarrow>
            trace (handler h title s) =
              Respond (now s) (nextRes s) 400 (Some ''Job title is required'')
                (JArr [JStr (js ''Communication''), JStr (js ''Problem Solving''), JStr (js ''Teamwork''),
                       JStr (js ''Time Management'')]) # trace s)
         \<and> requestQueue (handler h title s) = requestQueue s
         \<and> pending (handler h title s) = pending s
         \<and> isProcessing (handler h title s) = isProcessing s
         \<and> lastRequestTime (handler h title s) = lastRequestTime s
         \<and> attemptTimes (trace (handler h title s)) = attemptTimes (trace s)"
proof -
  from assms have "\<not> truthy title \<or> (\<exists>t. title = JStr t \<and> trim t = [])" by auto
  from handler_invalid [OF this] show ?thesis by simp
qed

theorem handler_rejects_blank_witness:
  "trace (handler acceptingHost (JStr (js ''   '')) (init 5000)) =
     [Respond 5000 0 400 (Some ''Job title is required'')
        (JArr [JStr (js ''Communication''), JStr (js ''Problem Solving''), JStr (js ''Teamwork''),
               JStr (js ''Time Management'')])]
   \<and> requestQueue (handler acceptingHost (JStr (js ''   '')) (init 5000)) = []
   \<and> attemptTimes (trace (handler acceptingHost (JStr (js ''   '')) (init 5000))) = []
   \<and> trace (handler acceptingHost (JStr [0xA0, 0x3000, 0x0A, 0xFEFF]) (init 5000)) =
     [Respond 5000 0 400 (Some ''Job title is required'')
        (JArr [JStr (js ''Communication''), JStr (js ''Problem Solving''), JStr (js ''Teamwork''),
               JStr (js ''Time Management'')])]
   \<and> requestQueue (handler acceptingHost (JStr [0xA0, 0x3000, 0x0A, 0xFEFF]) (init 5000)) = []
   \<and> trace (handler acceptingHost JUndefined (init 5000)) =
     [Respond 5000 0 400 (Some ''Job title is required'')
        (JArr [JStr (js ''Communication''), JStr (js ''Problem Solving''), JStr (js ''Teamwork''),
               JStr (js ''Time Management'')])]"
proof -
  have "trim (js ''   '') = []" by code_simp
  moreover have "trim [0xA0, 0x3000, 0x0A, 0xFEFF] = []" by code_simp
  ultimately show ?thesis
    using handler_rejects_blank [of "JStr (js ''   '')" "js ''   ''" acceptingHost "init 5000"]
      handler_rejects_blank [of "JStr [0xA0, 0x3000, 0x0A, 0xFEFF]" "[0xA0, 0x3000, 0x0A, 0xFEFF]"
        acceptingHost "init 5000"]
      handler_rejects_blank [of JUndefined "[]" acceptingHost "init 5000"]
    by (simp add: init_def acceptingHost_def)
qed

text \<open>
  C2, as the code has it. When the remote call of a job is rejected with an error
  object that is rate-limited with \<open>retryCount\<close> at least 3, or that is not
  rate-limited at all, the job's responder is invoked with the fallback list of the
  job's title, with status 200 and no error text; that is the one response delivered
  in this step, when the invocation returns, and none otherwise.
\<close>

theorem failure_delivers_fallback:
  assumes "i < length (pending s)" and "pending s ! i = Calling title r rc"
    and "\<not> (rateLimitMessage m \<and> rc < 3)"
  shows "responsesTo r (trace (onReply h i (Rejected (ErrorObj m)) s)) =
           (if sendThrows h (Returned (now s) r (Rejected (ErrorObj m)) # trace s) r
            then responsesTo r (trace s)
            else Respond (now s) r 200 None (JArr (map JStr (defaultSkillsFor title)))
                   # responsesTo r (trace s))"
  using assms by (auto simp: onReply_def Let_def settle_Inr responsesTo_processQueue)

theorem failure_delivers_fallback_witness:
  "responsesTo 0 (trace (onReply acceptingHost 0 (Rejected (ErrorObj (Some (js ''rate limit''))))
      ((init 5000)\<lparr>isProcessing := True, pending := [Calling (js ''Manager'') 0 3]\<rparr>)))
   = [Respond 5000 0 200 None (JArr (map JStr managerSkills))]"
proof -
  have "defaultSkillsFor (js ''Manager'') = managerSkills" by code_simp
  then show ?thesis
    using failure_delivers_fallback [of 0 "(init 5000)\<lparr>isProcessing := True, pending := [Calling (js ''Manager'') 0 3]\<rparr>"
        "js ''Manager''" 0 3 "Some (js ''rate limit'')" acceptingHost]
    by (simp add: init_def acceptingHost_def)
qed

text \<open>
  C2 as stated fails: a job whose only attempt is rejected with a connection error is
  answered with status 200, the success status.
\<close>

theorem failure_status_counterexample:
  "responsesTo 0 (trace (run acceptingHost 5000
       [Request (JStr (js ''Nurse'')), Reply 0 (Rejected (ErrorObj (Some (js ''connection reset''))))]))
   = [Respond 5000 0 200 None (JArr (map JStr nurseSkills))]"
  by code_simp

section \<open>The shape invariant\<close>

lemma invShape_single:
  assumes "invShape s" and "i < length (pending s)"
  shows "i = 0" and "isProcessing s" and "pending s = [pending s ! 0]"
proof -
  from assms have l: "length (pending s) = 1" and p: "isProcessing s"
    by (auto simp: invShape_def)
  from l assms(2) show "i = 0" by simp
  from p show "isProcessing s" .
  from l show "pending s = [pending s ! 0]"
    by (cases "pending s") auto
qed

lemma invShape_idle:
  assumes "invShape s" and "\<not> isProcessing s"
  shows "pending s = []" and "requestQueue s = []"
  using assms by (auto simp: invShape_def)

lemma invShape_processQueue:
  assumes "\<not> isProcessing s" and "pending s = []"
  shows "invShape (processQueue s)"
  using assms by (cases "requestQueue s")
    (simp_all add: processQueue_def startAttempt_def invShape_def Let_def)

lemma invShape_settle:
  assumes "pending s = []" and "isProcessing s"
  shows "invShape (settle h title r result s)"
proof (rule settle_preserves)
  show "invShape s" using assms by (simp add: invShape_def)
next
  fix code err sk
  show "invShape (processQueue (s\<lparr>trace := Respond (now s) r code err sk # trace s,
                                   isProcessing := False\<rparr>))"
    using assms(1) by (intro invShape_processQueue) simp_all
qed

lemma invShape_handler:
  assumes "invShape s"
  shows "invShape (handler h v s)"
proof (rule handler_preserves)
  show "invShape (s\<lparr>nextRes := Suc (nextRes s)\<rparr>)"
    using assms by (simp add: invShape_def)
next
  fix code err sk
  show "invShape (s\<lparr>nextRes := Suc (nextRes s),
                    trace := Respond (now s) (nextRes s) code err sk # trace s\<rparr>)"
    using assms by (simp add: invShape_def)
next
  fix t
  let ?s1 = "s\<lparr>nextRes := Suc (nextRes s),
               requestQueue := requestQueue s @ [\<lparr>jobTitle = t, res = nextRes s, retryCount = None\<rparr>]\<rparr>"
  show "invShape (processQueue ?s1)"
  proof (cases "isProcessing s")
    case True
    with assms show ?thesis by (simp add: processQueue_def invShape_def)
  next
    case False
    with assms have "pending s = []" by (simp add: invShape_idle)
    with False show ?thesis by (simp add: invShape_processQueue)
  qed
qed

lemma remove_nth_single [simp]: "remove_nth 0 [a] = []"
  by (simp add: remove_nth_def)

lemma invShape_onTimer:
  assumes "invShape s"
  shows "invShape (onTimer h i s)"
proof (cases "i < length (pending s)")
  case False
  then show ?thesis using assms by (simp add: onTimer_def)
next
  case True
  note single = invShape_single [OF assms True]
  show ?thesis
  proof (cases "pending s ! 0")
    case (Spacing d)
    with single have p: "pending s = [Spacing d]" by simp
    with assms obtain j q where q: "requestQueue s = j # q"
      by (cases "requestQueue s") (auto simp: invShape_def)
    show ?thesis
      using single(1,2) p q assms by (simp add: onTimer_def startAttempt_def invShape_def Let_def)
  next
    case (Calling title r rc)
    with single assms show ?thesis by (simp add: onTimer_def)
  next
    case (BackingOff d title r rc)
    with single have p: "pending s = [BackingOff d title r rc]" by simp
    have "invShape (settle h title r res' (s\<lparr>pending := []\<rparr>))" for res'
      using single(2) by (intro invShape_settle) simp_all
    then show ?thesis
      using single(1,2) p assms
      by (simp add: onTimer_def)
  qed
qed

lemma invShape_onReply:
  assumes "invShape s"
  shows "invShape (onReply h i out s)"
proof (cases "i < length (pending s)")
  case False
  then show ?thesis using assms by (simp add: onReply_def)
next
  case True
  note single = invShape_single [OF assms True]
  show ?thesis
  proof (cases "pending s ! 0")
    case (Spacing d)
    with single assms show ?thesis by (simp add: onReply_def)
  next
    case (BackingOff d title r rc)
    with single assms show ?thesis by (simp add: onReply_def)
  next
    case (Calling title r rc)
    with single have p: "pending s = [Calling title r rc]" by simp
    have bo: "invShape (s\<lparr>pending := [BackingOff d title r rc], trace := tr\<rparr>)" for d tr
      using single(2) assms by (simp add: invShape_def)
    have st: "invShape (settle h title r res' (s\<lparr>pending := [], trace := tr\<rparr>))" for res' tr
      using single(2) by (intro invShape_settle) simp_all
    show ?thesis
      using single(1) p
      by (auto simp: onReply_def Let_def st bo split: outcome.splits rejection.splits)
  qed
qed

lemma invShape_step: "invShape s \<Longrightarrow> invShape (step h s x)"
  by (cases x) (simp_all add: invShape_handler invShape_onTimer invShape_onReply, simp add: invShape_def)

lemma invShape_init: "invShape (init t0)"
  by (simp add: init_def invShape_def)

lemma invShape_foldl: "invShape s \<Longrightarrow> invShape (foldl (step h) s ins)"
  by (induction ins arbitrary: s) (simp_all add: invShape_step)

lemma invShape_run: "invShape (run h t0 ins)"
  by (simp add: run_def invShape_foldl invShape_init)

section \<open>The timing invariant\<close>

lemma startAttempt_Cons:
  "requestQueue s = j # q \<Longrightarrow>
   startAttempt s =
     s\<lparr>requestQueue := q, lastRequestTime := now s,
       pending := pending s @ [Calling (jobTitle j) (res j) (case retryCount j of None \<Rightarrow> 0 | Some n \<Rightarrow> n)],
       trace := Attempt (now s) (res j) (jobTitle j) (case retryCount j of None \<Rightarrow> 0 | Some n \<Rightarrow> n) # trace s\<rparr>"
  by (simp add: startAttempt_def Let_def)

lemma processQueue_idle:
  "\<not> isProcessing s \<Longrightarrow> requestQueue s = j # q \<Longrightarrow>
   processQueue s =
     (if now s - lastRequestTime s < MIN_REQUEST_INTERVAL
      then s\<lparr>isProcessing := True,
             pending := pending s @ [Spacing (lastRequestTime s + MIN_REQUEST_INTERVAL)]\<rparr>
      else startAttempt (s\<lparr>isProcessing := True\<rparr>))"
  by (simp add: processQueue_def Let_def max_def)

lemma invTiming_startAttempt:
  assumes "invTiming s" and "pending s = []"
    and "lastRequestTime s + MIN_REQUEST_INTERVAL \<le> now s"
  shows "invTiming (startAttempt s)"
proof (cases "requestQueue s")
  case Nil
  then show ?thesis using assms(1) by (simp add: startAttempt_def)
next
  case (Cons j q)
  have sp: "spaced (now s # attemptTimes (trace s))"
  proof (cases "attemptTimes (trace s)")
    case Nil
    then show ?thesis by simp
  next
    case (Cons t ts)
    with assms(1) have "lastRequestTime s = t" "spaced (t # ts)"
      by (simp_all add: invTiming_def)
    with assms(3) Cons show ?thesis by simp
  qed
  show ?thesis
    unfolding startAttempt_Cons [OF Cons] using sp assms(2) by (simp add: invTiming_def)
qed

lemma invTiming_processQueue:
  assumes "invTiming s" and "\<not> isProcessing s" and "pending s = []"
  shows "invTiming (processQueue s)"
proof (cases "requestQueue s")
  case Nil
  then show ?thesis using assms(1) by (simp add: processQueue_empty)
next
  case (Cons j q)
  show ?thesis
  proof (cases "now s - lastRequestTime s < MIN_REQUEST_INTERVAL")
    case True
    then show ?thesis
      using assms by (simp add: processQueue_idle [OF assms(2) Cons] invTiming_def)
  next
    case False
    have "invTiming (s\<lparr>isProcessing := True\<rparr>)"
      using assms(1) by (simp add: invTiming_def)
    then have "invTiming (startAttempt (s\<lparr>isProcessing := True\<rparr>))"
      using assms(3) False by (intro invTiming_startAttempt) simp_all
    then show ?thesis
      using False by (simp add: processQueue_idle [OF assms(2) Cons])
  qed
qed

lemma invTiming_settle:
  assumes "invTiming s" and "pending s = []"
  shows "invTiming (settle h title r result s)"
proof (rule settle_preserves)
  show "invTiming s" by (rule assms(1))
next
  fix code err sk
  have "invTiming (s\<lparr>trace := Respond (now s) r code err sk # trace s, isProcessing := False\<rparr>)"
    using assms(1) by (simp add: invTiming_def)
  then show "invTiming (processQueue (s\<lparr>trace := Respond (now s) r code err sk # trace s,
                                    isProcessing := False\<rparr>))"
    using assms(2) by (intro invTiming_processQueue) simp_all
qed

lemma invTiming_handler:
  assumes "invShape s" and "invTiming s"
  shows "invTiming (handler h v s)"
proof (rule handler_preserves)
  show "invTiming (s\<lparr>nextRes := Suc (nextRes s)\<rparr>)"
    using assms(2) by (simp add: invTiming_def)
next
  fix code err sk
  show "invTiming (s\<lparr>nextRes := Suc (nextRes s),
                    trace := Respond (now s) (nextRes s) code err sk # trace s\<rparr>)"
    using assms(2) by (simp add: invTiming_def)
next
  fix t
  let ?s1 = "s\<lparr>nextRes := Suc (nextRes s),
               requestQueue := requestQueue s @ [\<lparr>jobTitle = t, res = nextRes s, retryCount = None\<rparr>]\<rparr>"
  show "invTiming (processQueue ?s1)"
  proof (cases "isProcessing s")
    case True
    with assms(2) show ?thesis by (simp add: processQueue_def invTiming_def)
  next
    case False
    with assms(1) have "pending s = []" by (simp add: invShape_idle)
    moreover have "invTiming ?s1"
      using assms(2) by (simp add: invTiming_def)
    ultimately show ?thesis using False by (intro invTiming_processQueue) simp_all
  qed
qed

lemma invTiming_onTimer:
  assumes "invShape s" and "invTiming s"
  shows "invTiming (onTimer h i s)"
proof (cases "i < length (pending s)")
  case False
  then show ?thesis using assms by (simp add: onTimer_def)
next
  case True
  note single = invShape_single [OF assms(1) True]
  show ?thesis
  proof (cases "pending s ! 0")
    case (Spacing d)
    with single have p: "pending s = [Spacing d]" by simp
    show ?thesis
    proof (cases "d \<le> now s")
      case False
      then show ?thesis using single(1) p assms(2) by (simp add: onTimer_def)
    next
      case True
      have "lastRequestTime s + MIN_REQUEST_INTERVAL \<le> d"
        using assms(2) p by (simp add: invTiming_def)
      with True have due: "lastRequestTime s + MIN_REQUEST_INTERVAL \<le> now s" by simp
      have "invTiming (s\<lparr>pending := []\<rparr>)"
        using assms(2) by (simp add: invTiming_def)
      then have "invTiming (startAttempt (s\<lparr>pending := []\<rparr>))"
        using due by (intro invTiming_startAttempt) simp_all
      then show ?thesis using single(1) p True by (simp add: onTimer_def)
    qed
  next
    case (Calling title r rc)
    with single assms show ?thesis by (simp add: onTimer_def)
  next
    case (BackingOff d title r rc)
    with single have p: "pending s = [BackingOff d title r rc]" by simp
    have "invTiming (s\<lparr>pending := []\<rparr>)"
      using assms(2) by (simp add: invTiming_def)
    then have "invTiming (settle h title r res' (s\<lparr>pending := []\<rparr>))" for res'
      by (intro invTiming_settle) simp_all
    then show ?thesis
      using single(1,2) p assms(2)
      by (simp add: onTimer_def)
  qed
qed

lemma invTiming_onReply:
  assumes "invShape s" and "invTiming s"
  shows "invTiming (onReply h i out s)"
proof (cases "i < length (pending s)")
  case False
  then show ?thesis using assms by (simp add: onReply_def)
next
  case True
  note single = invShape_single [OF assms(1) True]
  show ?thesis
  proof (cases "pending s ! 0")
    case (Spacing d)
    with single assms show ?thesis by (simp add: onReply_def)
  next
    case (BackingOff d title r rc)
    with single assms show ?thesis by (simp add: onReply_def)
  next
    case (Calling title r rc)
    with single have p: "pending s = [Calling title r rc]" by simp
    have bo: "invTiming (s\<lparr>pending := [BackingOff d title r rc],
                trace := Backoff t r rc dl # Returned t' r ou # trace s\<rparr>)" for d t t' dl ou
      using assms(2) by (simp add: invTiming_def)
    have "invTiming (s\<lparr>pending := [], trace := Returned t r ou # trace s\<rparr>)" for t ou
      using assms(2) by (simp add: invTiming_def)
    then have st: "invTiming (settle h title r res' (s\<lparr>pending := [], trace := Returned t r ou # trace s\<rparr>))"
      for res' t ou
      by (intro invTiming_settle) simp_all
    show ?thesis
      using single(1) p
      by (auto simp: onReply_def Let_def st bo split: outcome.splits rejection.splits)
  qed
qed

lemma invTiming_step: "invShape s \<Longrightarrow> invTiming s \<Longrightarrow> invTiming (step h s x)"
  by (cases x) (simp_all add: invTiming_handler invTiming_onTimer invTiming_onReply, simp add: invTiming_def)

lemma invTiming_init: "invTiming (init t0)"
  by (simp add: init_def invTiming_def)

lemma inv_foldl:
  "invShape s \<Longrightarrow> invTiming s \<Longrightarrow>
   invShape (foldl (step h) s ins) \<and> invTiming (foldl (step h) s ins)"
  by (induction ins arbitrary: s) (simp_all add: invShape_step invTiming_step)

lemma invTiming_run: "invTiming (run h t0 ins)"
  by (simp add: run_def inv_foldl invShape_init invTiming_init)

lemma spaced_tl: "spaced (x # xs) \<Longrightarrow> spaced xs"
  by (cases xs) simp_all

lemma spaced_append: "spaced (xs @ ys) \<Longrightarrow> spaced ys"
  by (induction xs) (auto dest: spaced_tl)

section \<open>The accounting invariant\<close>

lemma fresh_attempts:
  assumes "r \<notin> eventRes ` set tr"
  shows "attempts r tr = 0"
  using assms
proof (induction tr)
  case Nil
  then show ?case by simp
next
  case (Cons e tr)
  then show ?case by (cases e) auto
qed

lemma attempts_other: "eventRes e \<noteq> r \<Longrightarrow> attempts r (e # tr) = attempts r tr"
  by (cases e) simp_all

lemma queuedOk_other: "eventRes e \<noteq> res j \<Longrightarrow> queuedOk (e # tr) j = queuedOk tr j"
  by (simp add: queuedOk_def attempts_other)

lemma activeOk_other: "eventRes e \<notin> set (activationRes a) \<Longrightarrow> activeOk (e # tr) a = activeOk tr a"
  by (cases a) (simp_all add: attempts_other)

lemma queuedOk_quiet:
  "queuedOk (Respond t r code err sk # tr) j = queuedOk tr j"
  "queuedOk (Returned t r out # tr) j = queuedOk tr j"
  "queuedOk (Backoff t r c dl # tr) j = queuedOk tr j"
  by (simp_all add: queuedOk_def)

lemma activeOk_quiet:
  "activeOk (Respond t r code err sk # tr) a = activeOk tr a"
  "activeOk (Returned t r out # tr) a = activeOk tr a"
  "activeOk (Backoff t r c dl # tr) a = activeOk tr a"
  by (cases a; simp)+

lemma inProgress_simps:
  "inProgress (s\<lparr>trace := tr\<rparr>) = inProgress s"
  "inProgress (s\<lparr>nextRes := n\<rparr>) = inProgress s"
  "inProgress (s\<lparr>isProcessing := b\<rparr>) = inProgress s"
  "inProgress (s\<lparr>lastRequestTime := t\<rparr>) = inProgress s"
  "inProgress (s\<lparr>now := t\<rparr>) = inProgress s"
  by (simp_all add: inProgress_def)

lemma invJobs_flag: "invJobs (s\<lparr>isProcessing := b\<rparr>) = invJobs s"
  by (simp add: invJobs_def inProgress_simps)

lemma invJobs_progress_lt:
  assumes "invJobs s" and "r \<in> set (inProgress s)"
  shows "r < nextRes s"
proof (rule ccontr)
  assume "\<not> r < nextRes s"
  then have "nextRes s \<le> r" by simp
  with assms(1) have "r \<notin> set (inProgress s)" by (simp add: invJobs_def)
  with assms(2) show False by simp
qed

lemma invJobs_startAttempt:
  assumes "invJobs s" and "pending s = []"
  shows "invJobs (startAttempt s)"
proof (cases "requestQueue s")
  case Nil
  then show ?thesis using assms(1) by (simp add: startAttempt_def)
next
  case (Cons j q)
  from assms(1) Cons have qj: "queuedOk (trace s) j" by (simp add: invJobs_def)
  then have c0: "(case retryCount j of None \<Rightarrow> 0 | Some n \<Rightarrow> n) = (0::nat)"
    by (simp add: queuedOk_def)
  define e where "e = Attempt (now s) (res j) (jobTitle j) 0"
  have st: "startAttempt s = s\<lparr>requestQueue := q, lastRequestTime := now s,
       pending := [Calling (jobTitle j) (res j) 0], trace := e # trace s\<rparr>"
    using startAttempt_Cons [OF Cons] assms(2) by (simp add: c0 e_def)
  have old: "inProgress s = res j # map res q"
    using Cons assms(2) by (simp add: inProgress_def)
  from assms(1) old have d: "distinct (res j # map res q)"
    by (simp add: invJobs_def)
  have er: "eventRes e = res j" by (simp add: e_def)
  have 1: "distinct (map res q @ [res j])"
    using d by auto
  have 2: "\<forall>j' \<in> set q. queuedOk (e # trace s) j'"
  proof
    fix j' assume "j' \<in> set q"
    then have "res j' \<in> set (map res q)" by simp
    with d have "res j' \<noteq> res j" by fastforce
    moreover from \<open>j' \<in> set q\<close> assms(1) Cons have "queuedOk (trace s) j'"
      by (simp add: invJobs_def)
    ultimately show "queuedOk (e # trace s) j'" by (simp add: queuedOk_other er)
  qed
  from qj have a0: "attempts (res j) (trace s) = 0" by (simp add: queuedOk_def)
  then have 3: "activeOk (e # trace s) (Calling (jobTitle j) (res j) 0)"
    by (simp add: e_def)
  have 4: "\<forall>r. attempts r (e # trace s) \<le> 1"
  proof
    fix r
    from assms(1) have "attempts r (trace s) \<le> 1" by (simp add: invJobs_def)
    with a0 show "attempts r (e # trace s) \<le> 1" by (auto simp: e_def)
  qed
  have 5: "\<forall>r. nextRes s \<le> r \<longrightarrow> r \<notin> set (map res q @ [res j]) \<and> r \<notin> eventRes ` set (e # trace s)"
  proof (intro allI impI)
    fix r assume "nextRes s \<le> r"
    with assms(1) have "r \<notin> set (inProgress s)" "r \<notin> eventRes ` set (trace s)"
      by (simp_all add: invJobs_def)
    then show "r \<notin> set (map res q @ [res j]) \<and> r \<notin> eventRes ` set (e # trace s)"
      unfolding old by (auto simp: er)
  qed
  show ?thesis
    unfolding st using 1 2 3 4 5 by (simp add: invJobs_def inProgress_def)
qed

lemma invJobs_processQueue:
  assumes "invJobs s" and "pending s = []"
  shows "invJobs (processQueue s)"
proof (cases "isProcessing s \<or> requestQueue s = []")
  case True
  then show ?thesis using assms(1) by (auto simp: processQueue_def)
next
  case False
  then obtain j q where q: "requestQueue s = j # q" and idle: "\<not> isProcessing s"
    by (cases "requestQueue s") auto
  show ?thesis
  proof (cases "now s - lastRequestTime s < MIN_REQUEST_INTERVAL")
    case True
    have "invJobs (s\<lparr>isProcessing := True, pending := [Spacing d]\<rparr>)" for d
      using assms by (simp add: invJobs_def inProgress_def)
    with True show ?thesis
      using assms(2) by (simp add: processQueue_idle [OF idle q])
  next
    case False
    have "invJobs (startAttempt (s\<lparr>isProcessing := True\<rparr>))"
      using assms by (intro invJobs_startAttempt) (simp_all add: invJobs_flag)
    with False show ?thesis
      by (simp add: processQueue_idle [OF idle q])
  qed
qed

lemma invJobs_responded:
  assumes "invJobs s" and "r < nextRes s"
  shows "invJobs (s\<lparr>trace := Respond t r code err sk # trace s\<rparr>)"
proof -
  have "\<forall>r'. nextRes s \<le> r' \<longrightarrow> r' \<noteq> r"
    using assms(2) by auto
  then show ?thesis
    using assms(1)
    by (simp add: invJobs_def inProgress_simps queuedOk_quiet activeOk_quiet)
qed

lemma invJobs_settle:
  assumes "invJobs s" and "pending s = []" and "r < nextRes s"
  shows "invJobs (settle h title r result s)"
proof (rule settle_preserves)
  show "invJobs s" by (rule assms(1))
next
  fix code err sk
  have "invJobs (s\<lparr>trace := Respond (now s) r code err sk # trace s, isProcessing := False\<rparr>)"
    using invJobs_responded [OF assms(1,3)] by (simp add: invJobs_def inProgress_def)
  then show "invJobs (processQueue (s\<lparr>trace := Respond (now s) r code err sk # trace s,
                                     isProcessing := False\<rparr>))"
    using assms(2) by (intro invJobs_processQueue) simp_all
qed

lemma invJobs_reject:
  assumes "invJobs s"
  shows "invJobs (s\<lparr>nextRes := Suc (nextRes s),
                   trace := Respond t (nextRes s) code err sk # trace s\<rparr>)"
proof -
  have "\<forall>r. Suc (nextRes s) \<le> r \<longrightarrow>
          r \<notin> set (inProgress s) \<and> r \<notin> eventRes ` set (Respond t (nextRes s) code err sk # trace s)"
    using assms by (auto simp: invJobs_def)
  then show ?thesis
    using assms
    by (simp add: invJobs_def inProgress_simps queuedOk_quiet activeOk_quiet)
qed

lemma invJobs_skip:
  assumes "invJobs s"
  shows "invJobs (s\<lparr>nextRes := Suc (nextRes s)\<rparr>)"
  using assms by (simp add: invJobs_def inProgress_simps)

lemma invJobs_enqueue:
  assumes "invJobs s"
  shows "invJobs (s\<lparr>nextRes := Suc (nextRes s),
                   requestQueue := requestQueue s @ [\<lparr>jobTitle = t, res = nextRes s, retryCount = None\<rparr>]\<rparr>)"
proof -
  let ?n = "nextRes s"
  have nin: "?n \<notin> set (inProgress s)" and nev: "?n \<notin> eventRes ` set (trace s)"
    using assms by (simp_all add: invJobs_def)
  have q: "queuedOk (trace s) \<lparr>jobTitle = t, res = ?n, retryCount = None\<rparr>"
    using fresh_attempts [OF nev] by (simp add: queuedOk_def)
  have d: "distinct (map res (requestQueue s) @ [?n] @ concat (map activationRes (pending s)))"
    using assms nin by (auto simp: invJobs_def inProgress_def)
  show ?thesis
    using assms q d nin by (auto simp: invJobs_def inProgress_def)
qed

lemma invJobs_handler:
  assumes "invShape s" and "invJobs s"
  shows "invJobs (handler h v s)"
proof (rule handler_preserves)
  show "invJobs (s\<lparr>nextRes := Suc (nextRes s)\<rparr>)"
    by (rule invJobs_skip [OF assms(2)])
next
  fix code err sk
  show "invJobs (s\<lparr>nextRes := Suc (nextRes s),
                   trace := Respond (now s) (nextRes s) code err sk # trace s\<rparr>)"
    by (rule invJobs_reject [OF assms(2)])
next
  fix t
  let ?s1 = "s\<lparr>nextRes := Suc (nextRes s),
               requestQueue := requestQueue s @ [\<lparr>jobTitle = t, res = nextRes s, retryCount = None\<rparr>]\<rparr>"
  show "invJobs (processQueue ?s1)"
  proof (cases "isProcessing s")
    case True
    then show ?thesis using invJobs_enqueue [OF assms(2)] by (simp add: processQueue_def)
  next
    case False
    with assms(1) have "pending s = []" by (simp add: invShape_idle)
    then show ?thesis by (intro invJobs_processQueue invJobs_enqueue assms(2)) simp
  qed
qed

lemma invJobs_released:
  assumes "invJobs s" and "pending s = [a]"
  shows "invJobs (s\<lparr>pending := []\<rparr>)"
  using assms by (simp add: invJobs_def inProgress_def)

lemma invJobs_onTimer:
  assumes "invShape s" and "invJobs s"
  shows "invJobs (onTimer h i s)"
proof (cases "i < length (pending s)")
  case False
  then show ?thesis using assms by (simp add: onTimer_def)
next
  case True
  note single = invShape_single [OF assms(1) True]
  show ?thesis
  proof (cases "pending s ! 0")
    case (Spacing d)
    with single have p: "pending s = [Spacing d]" by simp
    have "invJobs (startAttempt (s\<lparr>pending := []\<rparr>))"
      using invJobs_released [OF assms(2) p] by (intro invJobs_startAttempt) simp_all
    then show ?thesis using single(1) p assms(2) by (simp add: onTimer_def)
  next
    case (Calling title r rc)
    with single assms show ?thesis by (simp add: onTimer_def)
  next
    case (BackingOff d title r rc)
    with single have p: "pending s = [BackingOff d title r rc]" by simp
    have "r \<in> set (inProgress s)" using p by (simp add: inProgress_def)
    then have lt: "r < nextRes s" by (rule invJobs_progress_lt [OF assms(2)])
    have "invJobs (settle h title r res' (s\<lparr>pending := []\<rparr>))" for res'
      using invJobs_released [OF assms(2) p] lt by (intro invJobs_settle) simp_all
    then show ?thesis
      using single(1) p assms(2) by (simp add: onTimer_def)
  qed
qed

lemma invJobs_onReply:
  assumes "invShape s" and "invJobs s"
  shows "invJobs (onReply h i out s)"
proof (cases "i < length (pending s)")
  case False
  then show ?thesis using assms by (simp add: onReply_def)
next
  case True
  note single = invShape_single [OF assms(1) True]
  show ?thesis
  proof (cases "pending s ! 0")
    case (Spacing d)
    with single assms show ?thesis by (simp add: onReply_def)
  next
    case (BackingOff d title r rc)
    with single assms show ?thesis by (simp add: onReply_def)
  next
    case (Calling title r rc)
    with single have p: "pending s = [Calling title r rc]" by simp
    have "r \<in> set (inProgress s)" using p by (simp add: inProgress_def)
    then have lt: "r < nextRes s" by (rule invJobs_progress_lt [OF assms(2)])
    have fr: "\<forall>r'. nextRes s \<le> r' \<longrightarrow> r' \<noteq> r"
      using lt by auto
    have ret: "invJobs (s\<lparr>pending := [], trace := Returned t r ou # trace s\<rparr>)" for t ou
      using assms(2) p fr by (simp add: invJobs_def inProgress_def queuedOk_quiet)
    have st: "invJobs (settle h title r result (s\<lparr>pending := [], trace := Returned t r ou # trace s\<rparr>))"
      for result t ou
      using ret lt by (intro invJobs_settle) simp_all
    have bo: "invJobs (s\<lparr>pending := [BackingOff d title r rc],
                trace := Backoff t r rc dl # Returned t' r ou # trace s\<rparr>)" for d t t' dl ou
      using assms(2) p fr by (simp add: invJobs_def inProgress_def queuedOk_quiet)
    show ?thesis
      using single(1) p
      by (auto simp: onReply_def Let_def st bo split: outcome.splits rejection.splits)
  qed
qed

lemma invJobs_step: "invShape s \<Longrightarrow> invJobs s \<Longrightarrow> invJobs (step h s x)"
  by (cases x) (simp_all add: invJobs_handler invJobs_onTimer invJobs_onReply, simp add: invJobs_def inProgress_simps)

lemma invJobs_init: "invJobs (init t0)"
  by (simp add: init_def invJobs_def inProgress_def)

lemma invJobs_foldl:
  "invShape s \<Longrightarrow> invJobs s \<Longrightarrow> invJobs (foldl (step h) s ins)"
  by (induction ins arbitrary: s) (simp_all add: invShape_step invJobs_step)

lemma invJobs_run: "invJobs (run h t0 ins)"
  by (simp add: run_def invJobs_foldl invShape_init invJobs_init)

section \<open>The retry waits of every run\<close>










section \<open>Properties of every run\<close>

text \<open>
  C5. In every state a run can reach there is at most one suspended run of
  \<^verbatim>\<open>processQueue\<close>, hence at most one remote call in flight; the flag is set whenever
  a run is suspended at the spacing timer, at the remote call or at the retry timer;
  and \<^verbatim>\<open>processQueue\<close> does nothing while the flag is set.
\<close>

theorem single_flight:
  assumes "s = run h t0 ins"
  shows "length (filter isCalling (pending s)) \<le> 1
         \<and> length (pending s) \<le> 1
         \<and> (pending s \<noteq> [] \<longrightarrow> isProcessing s)
         \<and> (isProcessing s \<longrightarrow> processQueue s = s)"
proof -
  have "invShape s" unfolding assms by (rule invShape_run)
  then have l: "length (pending s) \<le> 1" and p: "pending s \<noteq> [] \<longrightarrow> isProcessing s"
    by (auto simp: invShape_def split: if_splits)
  have "length (filter isCalling (pending s)) \<le> 1"
    by (rule order_trans [OF length_filter_le l])
  with l p show ?thesis by (simp add: processQueue_busy)
qed

theorem single_flight_witness:
  "pending (run acceptingHost 5000 [Request (JStr (js ''Nurse'')), Request (JStr (js ''Chef''))])
     = [Calling (js ''Nurse'') 0 0]
   \<and> isProcessing (run acceptingHost 5000 [Request (JStr (js ''Nurse'')), Request (JStr (js ''Chef''))])
   \<and> processQueue (run acceptingHost 5000 [Request (JStr (js ''Nurse'')), Request (JStr (js ''Chef''))])
     = run acceptingHost 5000 [Request (JStr (js ''Nurse'')), Request (JStr (js ''Chef''))]"
proof -
  have e: "pending (run acceptingHost 5000 [Request (JStr (js ''Nurse'')), Request (JStr (js ''Chef''))])
     = [Calling (js ''Nurse'') 0 0]"
    by code_simp
  from single_flight [OF refl, of acceptingHost 5000 "[Request (JStr (js ''Nurse'')), Request (JStr (js ''Chef''))]"]
  show ?thesis unfolding e by simp
qed


text \<open>
  C6. Any two consecutive remote calls of a run start at least
  \<open>MIN_REQUEST_INTERVAL\<close> apart; \<^verbatim>\<open>lastRequestTime\<close> is the start time of the newest
  call, and a pending spacing timer is due no earlier than one interval after it. The
  clock does not go back and a timer does not fire before its deadline.
\<close>

theorem attempts_spaced:
  assumes "attemptTimes (trace (run h t0 ins)) = later @ t2 # t1 # earlier"
  shows "t1 + MIN_REQUEST_INTERVAL \<le> t2
         \<and> lastRequestTime (run h t0 ins) = hd (later @ [t2])
         \<and> (\<forall>d. Spacing d \<in> set (pending (run h t0 ins)) \<longrightarrow>
               hd (later @ [t2]) + MIN_REQUEST_INTERVAL \<le> d)"
proof -
  let ?s = "run h t0 ins"
  have inv: "invTiming ?s" by (rule invTiming_run)
  then have "spaced (later @ t2 # t1 # earlier)"
    unfolding assms [symmetric] by (simp add: invTiming_def)
  then have "spaced (t2 # t1 # earlier)" by (rule spaced_append)
  then have 1: "t1 + MIN_REQUEST_INTERVAL \<le> t2" by simp
  have "later @ t2 # t1 # earlier = hd (later @ [t2]) # tl (later @ t2 # t1 # earlier)"
    by (cases later) simp_all
  with assms have "attemptTimes (trace ?s) = hd (later @ [t2]) # tl (later @ t2 # t1 # earlier)"
    by simp
  with inv have 2: "lastRequestTime ?s = hd (later @ [t2])"
    unfolding invTiming_def by blast
  from inv have "\<forall>d. Spacing d \<in> set (pending ?s) \<longrightarrow> lastRequestTime ?s + MIN_REQUEST_INTERVAL \<le> d"
    by (simp add: invTiming_def)
  with 1 2 show ?thesis by simp
qed

theorem attempts_spaced_witness:
  \<open>attemptTimes (trace (run acceptingHost 5000
       [Request (JStr (js ''Nurse'')), Request (JStr (js ''Chef'')), Reply 0 (Resolved (Some (js ''["Triage"]''))),
        Tick 1000, Timer 0]))
     = [6000, 5000]
   \<and> 5000 + MIN_REQUEST_INTERVAL \<le> (6000 :: int)
   \<and> lastRequestTime (run acceptingHost 5000
       [Request (JStr (js ''Nurse'')), Request (JStr (js ''Chef'')), Reply 0 (Resolved (Some (js ''["Triage"]''))),
        Tick 1000, Timer 0]) = 6000\<close>
proof -
  have e: \<open>attemptTimes (trace (run acceptingHost 5000
       [Request (JStr (js ''Nurse'')), Request (JStr (js ''Chef'')), Reply 0 (Resolved (Some (js ''["Triage"]''))),
        Tick 1000, Timer 0]))
     = [] @ 6000 # 5000 # []\<close>
    by code_simp
  from attempts_spaced [OF e] e show ?thesis by simp
qed

text \<open>
  C3 does not hold of the code. No run attempts a request more than once, and every
  queued job is one the handler pushed, without a \<^verbatim>\<open>retryCount\<close>: the push of
  line 121 never takes place. A job whose only attempt is rate-limited has left the
  scheduler after that one attempt and the first retry delay.
\<close>

theorem single_attempt:
  "attempts r (trace (run h t0 ins)) \<le> 1
   \<and> list_all (\<lambda>j. retryCount j = None) (requestQueue (run h t0 ins))
   \<and> attempts 0 (trace (run acceptingHost 5000
        [Request (JStr (js ''Nurse'')), Reply 0 (Rejected (ErrorObj (Some (js ''429 rate limit exceeded'')))),
         Tick 1000, Timer 0])) = 1
   \<and> inProgress (run acceptingHost 5000
        [Request (JStr (js ''Nurse'')), Reply 0 (Rejected (ErrorObj (Some (js ''429 rate limit exceeded'')))),
         Tick 1000, Timer 0]) = []"
proof -
  have inv: "invJobs (run h t0 ins)" by (rule invJobs_run)
  then have 1: "attempts r (trace (run h t0 ins)) \<le> 1"
    by (simp add: invJobs_def)
  from inv have 2: "list_all (\<lambda>j. retryCount j = None) (requestQueue (run h t0 ins))"
    by (simp add: invJobs_def queuedOk_def list_all_iff)
  have 3: "attempts 0 (trace (run acceptingHost 5000
        [Request (JStr (js ''Nurse'')), Reply 0 (Rejected (ErrorObj (Some (js ''429 rate limit exceeded'')))),
         Tick 1000, Timer 0])) = 1"
    by code_simp
  have 4: "inProgress (run acceptingHost 5000
        [Request (JStr (js ''Nurse'')), Reply 0 (Rejected (ErrorObj (Some (js ''429 rate limit exceeded'')))),
         Tick 1000, Timer 0]) = []"
    by code_simp
  from 1 2 3 4 show ?thesis by simp
qed


text \<open>
  C1 does not hold of the code. A job whose first attempt is rate-limited is not pushed
  back: when its retry delay has run out, the push throws, the \<^verbatim>\<open>catch\<close> block of
  \<^verbatim>\<open>processQueue\<close> invokes the job's responder with status 500 and the fallback
  list, and the job has left the scheduler, attempted once.
\<close>

theorem rate_limited_job_answered_at_requeue:
  "responsesTo 0 (trace (run acceptingHost 5000
       [Request (JStr (js ''Nurse'')), Reply 0 (Rejected (ErrorObj (Some (js ''429 rate limit exceeded''))))]))
     = []
   \<and> pending (run acceptingHost 5000
       [Request (JStr (js ''Nurse'')), Reply 0 (Rejected (ErrorObj (Some (js ''429 rate limit exceeded''))))])
     = [BackingOff 6000 (js ''Nurse'') 0 0]
   \<and> responsesTo 0 (trace (run acceptingHost 5000
       [Request (JStr (js ''Nurse'')), Reply 0 (Rejected (ErrorObj (Some (js ''429 rate limit exceeded'')))),
        Tick 1000, Timer 0]))
     = [Respond 6000 0 500 (Some ''Failed to get suggestions'') (JArr (map JStr nurseSkills))]
   \<and> requestQueue (run acceptingHost 5000
       [Request (JStr (js ''Nurse'')), Reply 0 (Rejected (ErrorObj (Some (js ''429 rate limit exceeded'')))),
        Tick 1000, Timer 0]) = []
   \<and> pending (run acceptingHost 5000
       [Request (JStr (js ''Nurse'')), Reply 0 (Rejected (ErrorObj (Some (js ''429 rate limit exceeded'')))),
        Tick 1000, Timer 0]) = []"
  by code_simp

end
